theory Spec2Isabelle
  imports Complex_Main "HOL-Library.AList" "HOL-Library.Sublist" "HOL-Library.Log_Nat"
begin

section \<open>The in-memory chat server of \<^verbatim>\<open>server.js\<close>\<close>

text \<open>
  The server keeps five module-level variables: the array \<^verbatim>\<open>messages\<close> and the four
  JavaScript \<^verbatim>\<open>Map\<close>s \<^verbatim>\<open>connectedUsers\<close>, \<^verbatim>\<open>userStatus\<close>, \<^verbatim>\<open>typingUsers\<close> and
  \<^verbatim>\<open>readReceipts\<close>. Every socket handler and the interval callback runs to completion, so
  each one is a function from the state (and the values it reads from its environment: the
  clock, the random generator, the id of the socket it serves) to the new state and the list
  of events it emits, in emission order.

  Conventions of the embedding:
  \<^item> a JavaScript \<^verbatim>\<open>Map\<close> iterates in insertion order, \<^verbatim>\<open>set\<close> on a key that is present
    keeps its position and \<^verbatim>\<open>set\<close> on a new key appends: it is an association list with
    \<open>AList.update\<close>, \<open>AList.delete\<close> and \<open>map_of\<close>;
  \<^item> a JavaScript \<^verbatim>\<open>Set\<close> of user names is a list without duplicates in insertion order;
  \<^item> a JavaScript string is the list of its UTF-16 code units, and a code unit is a natural
    number (only the numbers below 65536 are code units);
  \<^item> a JavaScript number is the real number it denotes; the result of an addition is the
    exact sum rounded to the nearest double-precision number, ties to the even significand;
  \<^item> \<^verbatim>\<open>Date.now()\<close> is an integral number of milliseconds (of magnitude at most
    \<open>8.64 * 10^15\<close>, so a double-precision number) and \<^verbatim>\<open>Math.random()\<close> a double-precision
    number that is at least 0 and less than 1; both are handed in by the environment;
  \<^item> \<^verbatim>\<open>new Date().toISOString()\<close> is a string handed in by the environment;
  \<^item> \<^verbatim>\<open>String.prototype.toLowerCase\<close> depends on the case tables of Unicode; it is modelled on
    two families of strings, and the model says \<open>Not_covered\<close> on every other string.
\<close>

subsection \<open>Data\<close>

type_synonym code_unit = nat

type_synonym js_string = "code_unit list"

text \<open>The JavaScript string written as a literal of characters below code point 256.\<close>

definition js_str :: "string \<Rightarrow> js_string" where
  "js_str s = map of_char s"

type_synonym socket_id = js_string

text \<open>The descriptor answered by \<^verbatim>\<open>POST /api/upload\<close>, which clients attach to a message.\<close>

record attachment =
  filename :: js_string
  originalName :: js_string
  att_size :: nat
  mimetype :: js_string
  url :: js_string

record message =
  msg_id :: real
  username :: js_string
  content :: js_string
  msg_type :: js_string
  msg_attachment :: "attachment option"
  timestamp :: js_string
  edited :: bool
  editedAt :: "js_string option"

datatype status = Online | Offline

record server_state =
  messages :: "message list"
  connectedUsers :: "(socket_id \<times> js_string) list"
  userStatus :: "(js_string \<times> status) list"
  typingUsers :: "(js_string \<times> int) list"
  readReceipts :: "(real \<times> js_string list) list"

definition init :: server_state where
  "init = \<lparr>messages = [], connectedUsers = [], userStatus = [], typingUsers = [],
           readReceipts = []\<rparr>"

text \<open>
  Where an event goes: \<^verbatim>\<open>io.emit\<close> reaches every connection, \<^verbatim>\<open>socket.broadcast.emit\<close>
  every connection but the handler's own socket, \<^verbatim>\<open>socket.emit\<close> that socket alone.
\<close>

datatype target = Io_emit | Broadcast_emit socket_id | Socket_emit socket_id

datatype event =
    User_status_update js_string status
  | User_joined js_string
  | Chat_history "message list"
  | Online_users "(js_string \<times> status) list"
  | New_message message
  | Message_edited real js_string js_string
  | Message_deleted real
  | User_typing js_string
  | User_stopped_typing js_string
  | Message_read real js_string
  | User_left js_string

type_synonym emission = "target \<times> event"

fun receives :: "socket_id \<Rightarrow> target \<Rightarrow> bool" where
  "receives c Io_emit = True"
| "receives c (Broadcast_emit sender) = (c \<noteq> sender)"
| "receives c (Socket_emit sender) = (c = sender)"

definition delivered :: "socket_id \<Rightarrow> emission list \<Rightarrow> event list" where
  "delivered c ems = map snd (filter (\<lambda>em. receives c (fst em)) ems)"

subsection \<open>JavaScript library functions used by the handlers\<close>

text \<open>\<^verbatim>\<open>Array.prototype.findIndex\<close>: the first index whose element satisfies the predicate;
  the answer \<^verbatim>\<open>-1\<close> is \<open>None\<close>.\<close>

fun findIndex :: "('a \<Rightarrow> bool) \<Rightarrow> 'a list \<Rightarrow> nat option" where
  "findIndex P [] = None"
| "findIndex P (x # xs) = (if P x then Some 0 else map_option Suc (findIndex P xs))"

text \<open>\<^verbatim>\<open>xs.slice(-n)\<close>: the last \<open>n\<close> elements, all of them when there are fewer.\<close>

definition slice_last :: "nat \<Rightarrow> 'a list \<Rightarrow> 'a list" where
  "slice_last n xs = drop (length xs - n) xs"

text \<open>\<^verbatim>\<open>xs.splice(i, 1)\<close>: the array without the element at index \<open>i\<close>.\<close>

definition splice1 :: "nat \<Rightarrow> 'a list \<Rightarrow> 'a list" where
  "splice1 i xs = take i xs @ drop (Suc i) xs"

text \<open>\<^verbatim>\<open>Set.prototype.add\<close>.\<close>

definition Set_add :: "'a \<Rightarrow> 'a list \<Rightarrow> 'a list" where
  "Set_add x xs = (if x \<in> set xs then xs else xs @ [x])"

text \<open>
  Addition of numbers. \<open>binade x\<close> is the exponent \<open>e\<close> with \<open>2^e \<le> \<bar>x\<bar> < 2^(e+1)\<close>, computed
  from the length of the binary numeral of the integral part of \<open>\<bar>x\<bar>\<close>, or of its
  reciprocal when \<open>\<bar>x\<bar> < 1\<close>. A double-precision number of that binade is a multiple of
  \<open>2^(e-52)\<close> (of \<open>2^(-1074)\<close> below the normal range). Overflow to infinity is left out: the sums
  of the server stay far below \<open>2^1024\<close>.
\<close>

definition pow2 :: "int \<Rightarrow> real" where
  "pow2 k = (if 0 \<le> k then 2 ^ nat k else 1 / 2 ^ nat (- k))"

definition binade :: "real \<Rightarrow> int" where
  "binade x =
     (if 1 \<le> \<bar>x\<bar> then bitlen \<lfloor>\<bar>x\<bar>\<rfloor> - 1 else - bitlen (\<lceil>1 / \<bar>x\<bar>\<rceil> - 1))"

definition round_half_even :: "real \<Rightarrow> int" where
  "round_half_even x =
     (let f = \<lfloor>x\<rfloor>; r = x - of_int f
      in if r < 1/2 then f else if 1/2 < r then f + 1 else if even f then f else f + 1)"

definition to_double :: "real \<Rightarrow> real" where
  "to_double x =
     (if x = 0 then 0
      else let ulp = pow2 (max (binade x) (- 1022) - 52)
           in of_int (round_half_even (x / ulp)) * ulp)"

definition number_add :: "real \<Rightarrow> real \<Rightarrow> real" where
  "number_add a b = to_double (a + b)"








subsection \<open>The HTTP search route\<close>



subsection \<open>The socket handlers\<close>

definition join :: "server_state \<Rightarrow> socket_id \<Rightarrow> js_string \<Rightarrow> server_state \<times> emission list" where
  "join s sid uname =
     (let s' = s\<lparr>connectedUsers := AList.update sid uname (connectedUsers s),
                 userStatus := AList.update uname Online (userStatus s)\<rparr>;
          onlineUsers = filter (\<lambda>(_, st). st = Online) (userStatus s')
      in (s', [(Io_emit, User_status_update uname Online),
               (Broadcast_emit sid, User_joined uname),
               (Socket_emit sid, Chat_history (messages s')),
               (Socket_emit sid, Online_users onlineUsers)]))"

text \<open>The payload of \<^verbatim>\<open>send_message\<close>; \<^verbatim>\<open>type\<close> and \<^verbatim>\<open>attachment\<close> may be missing.\<close>

record send_data =
  sd_username :: js_string
  sd_content :: js_string
  sd_type :: "js_string option"
  sd_attachment :: "attachment option"

definition new_message :: "int \<Rightarrow> real \<Rightarrow> js_string \<Rightarrow> send_data \<Rightarrow> message" where
  "new_message now rnd stamp d =
     \<lparr>msg_id = number_add (of_int now) rnd,
      username = sd_username d,
      content = sd_content d,
      msg_type = (case sd_type d of None \<Rightarrow> (js_str ''text'') | Some t \<Rightarrow> if t = [] then (js_str ''text'') else t),
      msg_attachment = sd_attachment d,
      timestamp = stamp,
      edited = False,
      editedAt = None\<rparr>"

definition send_message ::
  "server_state \<Rightarrow> int \<Rightarrow> real \<Rightarrow> js_string \<Rightarrow> send_data \<Rightarrow> server_state \<times> emission list" where
  "send_message s now rnd stamp d =
     (let message = new_message now rnd stamp d;
          pushed = messages s @ [message];
          kept = (if length pushed > 100 then slice_last 100 pushed else pushed)
      in (s\<lparr>messages := kept,
             typingUsers := AList.delete (sd_username d) (typingUsers s)\<rparr>,
          [(Io_emit, User_stopped_typing (sd_username d)),
           (Io_emit, New_message message)]))"

record edit_data =
  ed_messageId :: real
  ed_username :: js_string
  ed_newContent :: js_string

definition edit_message ::
  "server_state \<Rightarrow> js_string \<Rightarrow> edit_data \<Rightarrow> server_state \<times> emission list" where
  "edit_message s stamp d =
     (case findIndex (\<lambda>msg. msg_id msg = ed_messageId d) (messages s) of
        None \<Rightarrow> (s, [])
      | Some messageIndex \<Rightarrow>
          if username (messages s ! messageIndex) = ed_username d
          then (s\<lparr>messages := (messages s)
                     [messageIndex := (messages s ! messageIndex)
                        \<lparr>content := ed_newContent d, edited := True, editedAt := Some stamp\<rparr>]\<rparr>,
                [(Io_emit, Message_edited (ed_messageId d) (ed_newContent d) stamp)])
          else (s, []))"

record delete_data =
  dd_messageId :: real
  dd_username :: js_string

definition delete_message :: "server_state \<Rightarrow> delete_data \<Rightarrow> server_state \<times> emission list" where
  "delete_message s d =
     (case findIndex (\<lambda>msg. msg_id msg = dd_messageId d) (messages s) of
        None \<Rightarrow> (s, [])
      | Some messageIndex \<Rightarrow>
          if username (messages s ! messageIndex) = dd_username d
          then (s\<lparr>messages := splice1 messageIndex (messages s)\<rparr>,
                [(Io_emit, Message_deleted (dd_messageId d))])
          else (s, []))"

definition typing ::
  "server_state \<Rightarrow> int \<Rightarrow> socket_id \<Rightarrow> js_string \<Rightarrow> server_state \<times> emission list" where
  "typing s now sid uname =
     (s\<lparr>typingUsers := AList.update uname now (typingUsers s)\<rparr>,
      [(Broadcast_emit sid, User_typing uname)])"

definition stop_typing :: "server_state \<Rightarrow> socket_id \<Rightarrow> js_string \<Rightarrow> server_state \<times> emission list" where
  "stop_typing s sid uname =
     (s\<lparr>typingUsers := AList.delete uname (typingUsers s)\<rparr>,
      [(Broadcast_emit sid, User_stopped_typing uname)])"

text \<open>\<^verbatim>\<open>mark_as_read\<close>: the entry of the id is created when it is missing, then the user is
  added to the set stored there. The second lookup cannot miss.\<close>

definition mark_as_read :: "server_state \<Rightarrow> real \<Rightarrow> js_string \<Rightarrow> server_state \<times> emission list" where
  "mark_as_read s messageId uname =
     (let rr = (if map_of (readReceipts s) messageId = None
                then AList.update messageId [] (readReceipts s)
                else readReceipts s);
          readBy = (case map_of rr messageId of None \<Rightarrow> [] | Some users \<Rightarrow> users)
      in (s\<lparr>readReceipts := AList.update messageId (Set_add uname readBy) rr\<rparr>,
          [(Io_emit, Message_read messageId uname)]))"

text \<open>\<^verbatim>\<open>disconnect\<close>: \<^verbatim>\<open>if (username)\<close> fails for a socket that never joined and for one
  that joined under the empty name.\<close>

definition disconnect :: "server_state \<Rightarrow> socket_id \<Rightarrow> server_state \<times> emission list" where
  "disconnect s sid =
     (case map_of (connectedUsers s) sid of
        None \<Rightarrow> (s, [])
      | Some uname \<Rightarrow>
          if uname = [] then (s, [])
          else (s\<lparr>connectedUsers := AList.delete sid (connectedUsers s),
                   userStatus := AList.update uname Offline (userStatus s),
                   typingUsers := AList.delete uname (typingUsers s)\<rparr>,
                [(Io_emit, User_status_update uname Offline),
                 (Broadcast_emit sid, User_left uname),
                 (Io_emit, User_stopped_typing uname)]))"

subsection \<open>The typing sweep\<close>

text \<open>The callback of \<^verbatim>\<open>setInterval\<close>: one pass over the entries of \<^verbatim>\<open>typingUsers\<close> in
  insertion order; an entry older than 3000 ms is deleted and reported to everyone.\<close>

fun sweep_entries :: "int \<Rightarrow> (js_string \<times> int) list \<Rightarrow> (js_string \<times> int) list \<times> emission list" where
  "sweep_entries now [] = ([], [])"
| "sweep_entries now ((uname, typed_at) # rest) =
     (let (kept, ems) = sweep_entries now rest
      in if now - typed_at > 3000
         then (kept, (Io_emit, User_stopped_typing uname) # ems)
         else ((uname, typed_at) # kept, ems))"

definition typing_sweep :: "server_state \<Rightarrow> int \<Rightarrow> server_state \<times> emission list" where
  "typing_sweep s now =
     (let (kept, ems) = sweep_entries now (typingUsers s)
      in (s\<lparr>typingUsers := kept\<rparr>, ems))"

subsection \<open>Runs of the server\<close>

datatype action =
    Join socket_id js_string
  | Send_message int real js_string send_data
  | Edit_message js_string edit_data
  | Delete_message delete_data
  | Typing int socket_id js_string
  | Stop_typing socket_id js_string
  | Mark_as_read real js_string
  | Disconnect socket_id
  | Typing_sweep int

fun step :: "server_state \<Rightarrow> action \<Rightarrow> server_state \<times> emission list" where
  "step s (Join sid uname) = join s sid uname"
| "step s (Send_message now rnd stamp d) = send_message s now rnd stamp d"
| "step s (Edit_message stamp d) = edit_message s stamp d"
| "step s (Delete_message d) = delete_message s d"
| "step s (Typing now sid uname) = typing s now sid uname"
| "step s (Stop_typing sid uname) = stop_typing s sid uname"
| "step s (Mark_as_read messageId uname) = mark_as_read s messageId uname"
| "step s (Disconnect sid) = disconnect s sid"
| "step s (Typing_sweep now) = typing_sweep s now"

fun run :: "server_state \<Rightarrow> action list \<Rightarrow> server_state" where
  "run s [] = s"
| "run s (a # as) = run (fst (step s a)) as"

text \<open>A run made of appends only, each with the values its handler reads from the clock and
  the random generator, and the messages those appends create, oldest first.\<close>

definition sends :: "(int \<times> real \<times> js_string \<times> send_data) list \<Rightarrow> action list" where
  "sends ins = map (\<lambda>(now, rnd, stamp, d). Send_message now rnd stamp d) ins"

definition new_messages :: "(int \<times> real \<times> js_string \<times> send_data) list \<Rightarrow> message list" where
  "new_messages ins = map (\<lambda>(now, rnd, stamp, d). new_message now rnd stamp d) ins"

subsection \<open>Sample inputs\<close>

definition lev_hi :: send_data where
  "lev_hi = \<lparr>sd_username = (js_str ''lev''), sd_content = (js_str ''hi''), sd_type = None, sd_attachment = None\<rparr>"

definition full_store :: server_state where
  "full_store = init\<lparr>messages := replicate 100 (new_message 0 0 (js_str ''t0'') lev_hi)\<rparr>"

definition lev_msg :: message where
  "lev_msg = new_message 1 0 (js_str ''t0'') lev_hi"

definition cin_msg :: message where
  "cin_msg = lev_msg\<lparr>username := (js_str ''cin''), content := (js_str ''yo'')\<rparr>"

text \<open>Two stored messages that carry the same id, the first by lev and the second by cin,
  and one read receipt for that id.\<close>

definition two_authors :: server_state where
  "two_authors = init\<lparr>messages := [lev_msg, cin_msg], readReceipts := [(1, [(js_str ''cin'')])]\<rparr>"

text \<open>lev started typing at time 0 on an otherwise empty server.\<close>

definition lev_typing :: server_state where
  "lev_typing = fst (typing init 0 (js_str ''s1'') (js_str ''lev''))"

definition cin_yo :: send_data where
  "cin_yo = \<lparr>sd_username = (js_str ''cin''), sd_content = (js_str ''yo''), sd_type = None, sd_attachment = None\<rparr>"

text \<open>lev and cin have joined on the sockets \<^verbatim>\<open>s1\<close> and \<^verbatim>\<open>s2\<close>.\<close>

definition lev_cin_online :: server_state where
  "lev_cin_online = fst (join (fst (join two_authors (js_str ''s1'') (js_str ''lev''))) (js_str ''s2'') (js_str ''cin''))"



subsection \<open>Notions of the specification\<close>

text \<open>An append is fresh when the id it computes, the rounded sum of its clock value and its
  random value, is not the id of a stored message; a run is fresh when each of its appends
  is, in the state it meets.\<close>

definition fresh_id :: "server_state \<Rightarrow> action \<Rightarrow> bool" where
  "fresh_id s a =
     (case a of
        Send_message now rnd stamp d \<Rightarrow>
          msg_id (new_message now rnd stamp d) \<notin> set (map msg_id (messages s))
      | _ \<Rightarrow> True)"

fun fresh_run :: "server_state \<Rightarrow> action list \<Rightarrow> bool" where
  "fresh_run s [] = True"
| "fresh_run s (a # as) = (fresh_id s a \<and> fresh_run (fst (step s a)) as)"




section \<open>Properties\<close>

subsection \<open>Library functions\<close>

lemma js_str_eq_iff [simp]: "js_str a = js_str b \<longleftrightarrow> a = b"
proof -
  have "inj (of_char :: char \<Rightarrow> nat)" by (rule inj_of_char)
  then show ?thesis by (simp add: js_str_def)
qed

lemmas number_eval =
  number_add_def to_double_def binade_def bitlen_def compute_floorlog pow2_def
  round_half_even_def Let_def

lemma length_slice_last: "length (slice_last n xs) = min n (length xs)"
  by (simp add: slice_last_def)

lemma slice_last_append: "slice_last n (slice_last n xs @ ys) = slice_last n (xs @ ys)"
proof (cases "length xs \<le> n")
  case True
  then show ?thesis by (simp add: slice_last_def)
next
  case False
  then have "length xs + length ys - n = (length xs - n) + length ys" by simp
  with False show ?thesis by (simp add: slice_last_def add.commute)
qed

lemma slice_last_suffix: "\<exists>front. xs = front @ slice_last n xs \<and> length front = length xs - n"
  by (metis append_take_drop_id length_take min.absorb2 diff_le_self slice_last_def)

lemma findIndex_Some:
  "findIndex P xs = Some i \<Longrightarrow> i < length xs \<and> P (xs ! i) \<and> (\<forall>j<i. \<not> P (xs ! j))"
proof (induction xs arbitrary: i)
  case Nil
  then show ?case by simp
next
  case (Cons x xs)
  show ?case
  proof (cases "P x")
    case True
    with Cons.prems show ?thesis by simp
  next
    case False
    with Cons.prems obtain k where k: "findIndex P xs = Some k" "i = Suc k" by auto
    from Cons.IH[OF k(1)] False k(2) show ?thesis by (auto simp: less_Suc_eq_0_disj)
  qed
qed

lemma findIndex_None: "findIndex P xs = None \<longleftrightarrow> (\<forall>x\<in>set xs. \<not> P x)"
  by (induction xs) auto

lemma length_splice1: "i < length xs \<Longrightarrow> length (splice1 i xs) = length xs - 1"
  by (simp add: splice1_def)

subsection \<open>Numbers\<close>

lemma pow2_powr: "pow2 k = 2 powr (of_int k)"
  by (auto simp: pow2_def powr_realpow[symmetric] powr_minus divide_inverse)

lemma floor_log2_eqI:
  fixes x :: real and k :: int
  assumes "pow2 k \<le> x" and "x < pow2 (k + 1)"
  shows "\<lfloor>log 2 x\<rfloor> = k"
proof -
  have "0 < pow2 k" by (simp add: pow2_powr)
  with assms(1) have "0 < x" by linarith
  then show ?thesis using assms
    by (simp add: pow2_powr floor_log_eq_powr_iff)
qed

lemma bitlen_pos: "0 < a \<Longrightarrow> 1 \<le> bitlen a"
proof (rule ccontr)
  assume a: "0 < a" and "\<not> 1 \<le> bitlen a"
  with bitlen_nonneg[of a] have "bitlen a = 0" by linarith
  with bitlen_bounds[OF a] a show False by simp
qed

lemma bitlen_bounds_pow2:
  assumes "0 < a"
  shows "pow2 (bitlen a - 1) \<le> of_int a \<and> of_int a < pow2 (bitlen a)"
proof -
  from bitlen_bounds[OF assms]
  have lo: "2 ^ nat (bitlen a - 1) \<le> a" and hi: "a < 2 ^ nat (bitlen a)" by simp_all
  have "real_of_int (2 ^ nat (bitlen a - 1)) \<le> of_int a"
    using lo by (rule of_int_le_iff[THEN iffD2])
  moreover have "real_of_int a < of_int (2 ^ nat (bitlen a))"
    using hi by (rule of_int_less_iff[THEN iffD2])
  ultimately show ?thesis using bitlen_pos[OF assms] by (simp add: pow2_def)
qed

lemma pow2_pos: "0 < pow2 k"
  by (simp add: pow2_powr)

lemma pow2_neg: "pow2 (- k) = 1 / pow2 k"
  by (simp add: pow2_powr powr_minus divide_inverse)

lemma pow2_nonneg_int: "0 \<le> k \<Longrightarrow> pow2 k = of_int (2 ^ nat k)"
  by (simp add: pow2_def)

lemma recip_less: "0 < (x::real) \<Longrightarrow> 0 < p \<Longrightarrow> p < 1 / x \<Longrightarrow> x < 1 / p"
  by (simp add: field_simps)

lemma recip_le: "0 < (x::real) \<Longrightarrow> 0 < p \<Longrightarrow> 1 / x \<le> p \<Longrightarrow> 1 / p \<le> x"
  by (simp add: field_simps)

text \<open>The exponent computed by \<open>binade\<close> is the integral part of the binary logarithm.\<close>

lemma binade_log:
  assumes "x \<noteq> 0"
  shows "binade x = \<lfloor>log 2 \<bar>x\<bar>\<rfloor>"
proof (cases "1 \<le> \<bar>x\<bar>")
  case True
  let ?a = "\<lfloor>\<bar>x\<bar>\<rfloor>"
  from True have a: "0 < ?a" by simp
  from bitlen_bounds_pow2[OF a]
  have lo: "pow2 (bitlen ?a - 1) \<le> of_int ?a" and hi: "of_int ?a < pow2 (bitlen ?a)" by simp_all
  have "1 \<le> bitlen ?a" using a by (rule bitlen_pos)
  then have "pow2 (bitlen ?a) = of_int (2 ^ nat (bitlen ?a))" by (simp add: pow2_def)
  with hi have "?a < 2 ^ nat (bitlen ?a)" by simp
  then have "\<bar>x\<bar> < of_int (2 ^ nat (bitlen ?a))" by (simp add: floor_less_iff)
  with \<open>pow2 (bitlen ?a) = _\<close> have "\<bar>x\<bar> < pow2 (bitlen ?a - 1 + 1)" by simp
  moreover have "pow2 (bitlen ?a - 1) \<le> \<bar>x\<bar>" using lo of_int_floor_le[of "\<bar>x\<bar>"] by linarith
  ultimately have "\<lfloor>log 2 \<bar>x\<bar>\<rfloor> = bitlen ?a - 1" by (intro floor_log2_eqI)
  with True show ?thesis by (simp add: binade_def)
next
  case False
  let ?y = "1 / \<bar>x\<bar>"
  let ?m = "\<lceil>?y\<rceil> - 1"
  from False assms have x: "0 < \<bar>x\<bar>" "\<bar>x\<bar> < 1" by simp_all
  then have y: "1 < ?y" by simp
  then have m: "0 < ?m" by (simp add: less_ceiling_iff)
  have my: "of_int ?m < ?y" "?y \<le> of_int ?m + 1"
    using ceiling_correct[of ?y] by simp_all
  from bitlen_bounds_pow2[OF m]
  have lo: "pow2 (bitlen ?m - 1) \<le> of_int ?m" and hi: "of_int ?m < pow2 (bitlen ?m)" by simp_all
  have b1: "1 \<le> bitlen ?m" using m by (rule bitlen_pos)
  then have p: "pow2 (bitlen ?m) = of_int (2 ^ nat (bitlen ?m))" by (simp add: pow2_def)
  from bitlen_bounds[OF m] have "\<lceil>?y\<rceil> \<le> 2 ^ nat (bitlen ?m)" by simp
  then have "real_of_int \<lceil>?y\<rceil> \<le> real_of_int (2 ^ nat (bitlen ?m))"
    by (rule of_int_le_iff[THEN iffD2])
  with le_of_int_ceiling[of ?y] have "?y \<le> real_of_int (2 ^ nat (bitlen ?m))"
    by (rule order_trans)
  with p have yhi: "?y \<le> pow2 (bitlen ?m)" by (simp only:)
  from lo my(1) have ylo: "pow2 (bitlen ?m - 1) < ?y" by linarith
  have "1 / pow2 (bitlen ?m) \<le> \<bar>x\<bar>"
    using x(1) pow2_pos[of "bitlen ?m"] yhi by (rule recip_le)
  then have "pow2 (- bitlen ?m) \<le> \<bar>x\<bar>" by (simp only: pow2_neg)
  moreover have "\<bar>x\<bar> < pow2 (- bitlen ?m + 1)"
  proof -
    have "\<bar>x\<bar> < 1 / pow2 (bitlen ?m - 1)"
      using x(1) pow2_pos[of "bitlen ?m - 1"] ylo by (rule recip_less)
    moreover have "pow2 (- bitlen ?m + 1) = 1 / pow2 (bitlen ?m - 1)"
      using pow2_neg[of "bitlen ?m - 1"] by simp
    ultimately show ?thesis by (simp only:)
  qed
  ultimately have "\<lfloor>log 2 \<bar>x\<bar>\<rfloor> = - bitlen ?m" by (intro floor_log2_eqI)
  with False show ?thesis by (simp add: binade_def)
qed

lemma round_half_even_near: "\<bar>of_int (round_half_even y) - y\<bar> \<le> 1/2"
  unfolding round_half_even_def Let_def by (auto simp: abs_le_iff)

text \<open>The rounded number is a multiple of the unit of its binade and lies within half a
  unit of the exact one.\<close>

lemma to_double_near:
  "\<exists>n. to_double x = of_int n * pow2 (max (binade x) (- 1022) - 52) \<and>
       \<bar>to_double x - x\<bar> \<le> pow2 (max (binade x) (- 1022) - 52) / 2"
proof (cases "x = 0")
  case True
  then show ?thesis by (intro exI[of _ 0]) (simp add: to_double_def pow2_pos less_imp_le)
next
  case False
  let ?u = "pow2 (max (binade x) (- 1022) - 52)"
  let ?n = "round_half_even (x / ?u)"
  have u: "0 < ?u" by (rule pow2_pos)
  have "to_double x - x = (of_int ?n - x / ?u) * ?u"
    using False u by (simp add: to_double_def Let_def field_simps)
  then have "\<bar>to_double x - x\<bar> = \<bar>of_int ?n - x / ?u\<bar> * ?u"
    using u by (simp add: abs_mult)
  also have "\<dots> \<le> 1/2 * ?u"
    using round_half_even_near[of "x / ?u"] u by (intro mult_right_mono) simp_all
  finally have "\<bar>to_double x - x\<bar> \<le> ?u / 2" by simp
  moreover have "to_double x = of_int ?n * ?u" using False by (simp add: to_double_def Let_def)
  ultimately show ?thesis by blast
qed

subsection \<open>Retention of the message store\<close>

lemma messages_send_message:
  "messages (fst (send_message s now rnd stamp d)) =
     slice_last 100 (messages s @ [new_message now rnd stamp d])"
  by (simp add: send_message_def Let_def slice_last_def)

lemma messages_run_sends:
  "messages (run s (sends ins)) =
     (if ins = [] then messages s else slice_last 100 (messages s @ new_messages ins))"
proof (induction ins arbitrary: s)
  case Nil
  show ?case by (simp add: sends_def)
next
  case (Cons i rest)
  obtain now rnd stamp d where i: "i = (now, rnd, stamp, d)" by (cases i) auto
  have "messages (run s (sends (i # rest))) =
          messages (run (fst (send_message s now rnd stamp d)) (sends rest))"
    by (simp add: sends_def i)
  also have "\<dots> = slice_last 100 (messages s @ new_messages (i # rest))"
    using slice_last_append[of 100 "messages s @ [new_message now rnd stamp d]" "new_messages rest"]
    by (simp add: Cons.IH messages_send_message new_messages_def i)
  finally show ?case by simp
qed

lemma length_messages_step:
  "length (messages s) \<le> 100 \<Longrightarrow> length (messages (fst (step s a))) \<le> 100"
proof (cases a)
  case (Send_message now rnd stamp d)
  then show ?thesis by (simp add: messages_send_message length_slice_last)
next
  case (Delete_message d)
  assume "length (messages s) \<le> 100"
  with Delete_message show ?thesis
    by (auto simp: delete_message_def length_splice1 dest!: findIndex_Some split: option.splits)
qed (simp_all add: join_def edit_message_def typing_def stop_typing_def
       mark_as_read_def disconnect_def typing_sweep_def Let_def split: option.splits prod.splits)

lemma length_messages_run:
  "length (messages s) \<le> 100 \<Longrightarrow> length (messages (run s as)) \<le> 100"
  by (induction as arbitrary: s) (simp_all add: length_messages_step)

text \<open>
  Claim C1. After a non-empty sequence of appends, from any store, the store holds the
  smaller of 100 and the number of messages it would hold without eviction; the old store
  followed by the new messages is some evicted front followed by the store that results, so
  the evicted messages are the oldest and the survivors keep their order. A store of at most
  100 messages stays so under every sequence of actions of the server.
\<close>

theorem store_bounded_fifo:
  "(ins \<noteq> [] \<longrightarrow>
      length (messages (run s (sends ins))) = min 100 (length (messages s) + length ins)) \<and>
   (\<exists>evicted. messages s @ new_messages ins = evicted @ messages (run s (sends ins))) \<and>
   (length (messages s) \<le> 100 \<longrightarrow> length (messages (run s acts)) \<le> 100)"
proof (intro conjI impI)
  assume "ins \<noteq> []"
  then show "length (messages (run s (sends ins))) = min 100 (length (messages s) + length ins)"
    by (simp add: messages_run_sends length_slice_last new_messages_def)
next
  show "\<exists>evicted. messages s @ new_messages ins = evicted @ messages (run s (sends ins))"
  proof (cases "ins = []")
    case True
    then show ?thesis by (simp add: sends_def new_messages_def)
  next
    case False
    with slice_last_suffix[of "messages s @ new_messages ins" 100] show ?thesis
      by (auto simp: messages_run_sends)
  qed
next
  assume "length (messages s) \<le> 100"
  then show "length (messages (run s acts)) \<le> 100" by (rule length_messages_run)
qed

theorem store_bounded_fifo_witness:
  "[(5::int, 1/2::real, (js_str ''t1''), lev_hi)] \<noteq> [] \<and> length (messages full_store) \<le> 100 \<and>
   length (messages (run full_store (sends [(5, 1/2, (js_str ''t1''), lev_hi)]))) = 100 \<and>
   messages (run full_store (sends [(5, 1/2, (js_str ''t1''), lev_hi)])) =
     replicate 99 (new_message 0 0 (js_str ''t0'') lev_hi) @ [new_message 5 (1/2) (js_str ''t1'') lev_hi] \<and>
   length (messages (run full_store [Send_message 5 (1/2) (js_str ''t1'') lev_hi, Typing_sweep 7])) \<le> 100"
  using store_bounded_fifo[of "[(5, 1/2, (js_str ''t1''), lev_hi)]" full_store
          "[Send_message 5 (1/2) (js_str ''t1'') lev_hi, Typing_sweep 7]"]
  by (simp add: full_store_def init_def sends_def send_message_def slice_last_def Let_def)

subsection \<open>Editing and deleting\<close>

lemma findIndex_split:
  "\<forall>x\<in>set pre. \<not> P x \<Longrightarrow> P m \<Longrightarrow> findIndex P (pre @ m # post) = Some (length pre)"
  by (induction pre) auto

lemma edit_message_denied:
  assumes "\<forall>m\<in>set (messages s). msg_id m = ed_messageId d \<longrightarrow> username m \<noteq> ed_username d"
  shows "edit_message s stamp d = (s, [])"
proof (cases "findIndex (\<lambda>msg. msg_id msg = ed_messageId d) (messages s)")
  case None
  then show ?thesis by (simp add: edit_message_def)
next
  case (Some i)
  from findIndex_Some[OF Some] have "messages s ! i \<in> set (messages s)"
    and "msg_id (messages s ! i) = ed_messageId d" by simp_all
  with assms have "username (messages s ! i) \<noteq> ed_username d" by blast
  with Some show ?thesis by (simp add: edit_message_def)
qed

lemma edit_message_first:
  assumes "messages s = pre @ m # post" and "\<forall>x\<in>set pre. msg_id x \<noteq> ed_messageId d"
    and "msg_id m = ed_messageId d"
  shows "edit_message s stamp d =
           (if username m = ed_username d
            then (s\<lparr>messages := pre @ m\<lparr>content := ed_newContent d, edited := True,
                                          editedAt := Some stamp\<rparr> # post\<rparr>,
                  [(Io_emit, Message_edited (ed_messageId d) (ed_newContent d) stamp)])
            else (s, []))"
proof -
  have "findIndex (\<lambda>msg. msg_id msg = ed_messageId d) (messages s) = Some (length pre)"
    using assms by (simp add: findIndex_split)
  then show ?thesis using assms(1) by (simp add: edit_message_def)
qed

text \<open>
  Claim C2. An edit request leaves the state as it is and emits nothing when no stored
  message has both the requested id and the requester as author. More precisely the handler
  looks at the first stored message with the requested id: when its author is the requester,
  that message alone gets the new content and the edit marks and one event is emitted; when
  its author is somebody else, nothing changes.
\<close>

theorem edit_only_by_author:
  "((\<forall>m\<in>set (messages s). msg_id m = ed_messageId d \<longrightarrow> username m \<noteq> ed_username d) \<longrightarrow>
      edit_message s stamp d = (s, [])) \<and>
   (messages s = pre @ m # post \<and> (\<forall>x\<in>set pre. msg_id x \<noteq> ed_messageId d) \<and>
    msg_id m = ed_messageId d \<longrightarrow>
      edit_message s stamp d =
        (if username m = ed_username d
         then (s\<lparr>messages := pre @ m\<lparr>content := ed_newContent d, edited := True,
                                       editedAt := Some stamp\<rparr> # post\<rparr>,
               [(Io_emit, Message_edited (ed_messageId d) (ed_newContent d) stamp)])
         else (s, [])))"
  using edit_message_denied[of s d stamp] edit_message_first[of s pre m post d stamp] by blast

theorem edit_only_by_author_witness:
  "7 \<notin> set (map msg_id (messages two_authors)) \<and>
   edit_message two_authors (js_str ''t1'') \<lparr>ed_messageId = 7, ed_username = (js_str ''lev''), ed_newContent = (js_str ''x'')\<rparr>
     = (two_authors, []) \<and>
   messages two_authors = [] @ lev_msg # [cin_msg] \<and> msg_id lev_msg = 1 \<and>
   edit_message two_authors (js_str ''t1'') \<lparr>ed_messageId = 1, ed_username = (js_str ''cin''), ed_newContent = (js_str ''x'')\<rparr>
     = (two_authors, []) \<and>
   edit_message two_authors (js_str ''t1'') \<lparr>ed_messageId = 1, ed_username = (js_str ''lev''), ed_newContent = (js_str ''x'')\<rparr>
     = (two_authors\<lparr>messages := [lev_msg\<lparr>content := (js_str ''x''), edited := True, editedAt := Some (js_str ''t1'')\<rparr>,
                                   cin_msg]\<rparr>,
        [(Io_emit, Message_edited 1 (js_str ''x'') (js_str ''t1''))])"
  using edit_only_by_author[of two_authors
          "\<lparr>ed_messageId = 7, ed_username = (js_str ''lev''), ed_newContent = (js_str ''x'')\<rparr>" "(js_str ''t1'')" "[]" lev_msg "[cin_msg]"]
        edit_only_by_author[of two_authors
          "\<lparr>ed_messageId = 1, ed_username = (js_str ''cin''), ed_newContent = (js_str ''x'')\<rparr>" "(js_str ''t1'')" "[]" lev_msg "[cin_msg]"]
        edit_only_by_author[of two_authors
          "\<lparr>ed_messageId = 1, ed_username = (js_str ''lev''), ed_newContent = (js_str ''x'')\<rparr>" "(js_str ''t1'')" "[]" lev_msg "[cin_msg]"]
  by (simp add: two_authors_def init_def lev_msg_def cin_msg_def new_message_def number_eval lev_hi_def)

lemma delete_message_denied:
  assumes "\<forall>m\<in>set (messages s). msg_id m = dd_messageId d \<longrightarrow> username m \<noteq> dd_username d"
  shows "delete_message s d = (s, [])"
proof (cases "findIndex (\<lambda>msg. msg_id msg = dd_messageId d) (messages s)")
  case None
  then show ?thesis by (simp add: delete_message_def)
next
  case (Some i)
  from findIndex_Some[OF Some] have "messages s ! i \<in> set (messages s)"
    and "msg_id (messages s ! i) = dd_messageId d" by simp_all
  with assms have "username (messages s ! i) \<noteq> dd_username d" by blast
  with Some show ?thesis by (simp add: delete_message_def)
qed

lemma delete_message_first:
  assumes "messages s = pre @ m # post" and "\<forall>x\<in>set pre. msg_id x \<noteq> dd_messageId d"
    and "msg_id m = dd_messageId d"
  shows "delete_message s d =
           (if username m = dd_username d
            then (s\<lparr>messages := pre @ post\<rparr>, [(Io_emit, Message_deleted (dd_messageId d))])
            else (s, []))"
proof -
  have "findIndex (\<lambda>msg. msg_id msg = dd_messageId d) (messages s) = Some (length pre)"
    using assms by (simp add: findIndex_split)
  then show ?thesis using assms(1) by (simp add: delete_message_def splice1_def)
qed

lemma readReceipts_delete_message:
  "readReceipts (fst (delete_message s d)) = readReceipts s"
  by (simp add: delete_message_def split: option.splits)

text \<open>
  Claim C3. A delete request removes the first stored message with the requested id, and
  nothing else, when the author of that message is the requester, and then emits one delete
  event; when no stored message has both that id and the requester as author, or the first
  message with that id belongs to somebody else, the state is unchanged and nothing is
  emitted.
\<close>

theorem delete_only_by_author:
  "((\<forall>m\<in>set (messages s). msg_id m = dd_messageId d \<longrightarrow> username m \<noteq> dd_username d) \<longrightarrow>
      delete_message s d = (s, [])) \<and>
   (messages s = pre @ m # post \<and> (\<forall>x\<in>set pre. msg_id x \<noteq> dd_messageId d) \<and>
    msg_id m = dd_messageId d \<longrightarrow>
      delete_message s d =
        (if username m = dd_username d
         then (s\<lparr>messages := pre @ post\<rparr>, [(Io_emit, Message_deleted (dd_messageId d))])
         else (s, [])))"
  using delete_message_denied[of s d] delete_message_first[of s pre m post d] by blast

theorem delete_only_by_author_witness:
  "7 \<notin> set (map msg_id (messages two_authors)) \<and>
   delete_message two_authors \<lparr>dd_messageId = 7, dd_username = (js_str ''lev'')\<rparr> = (two_authors, []) \<and>
   messages two_authors = [] @ lev_msg # [cin_msg] \<and> msg_id lev_msg = 1 \<and>
   delete_message two_authors \<lparr>dd_messageId = 1, dd_username = (js_str ''cin'')\<rparr> = (two_authors, []) \<and>
   delete_message two_authors \<lparr>dd_messageId = 1, dd_username = (js_str ''lev'')\<rparr>
     = (two_authors\<lparr>messages := [cin_msg]\<rparr>, [(Io_emit, Message_deleted 1)])"
  using delete_only_by_author[of two_authors "\<lparr>dd_messageId = 7, dd_username = (js_str ''lev'')\<rparr>"
          "[]" lev_msg "[cin_msg]"]
        delete_only_by_author[of two_authors "\<lparr>dd_messageId = 1, dd_username = (js_str ''cin'')\<rparr>"
          "[]" lev_msg "[cin_msg]"]
        delete_only_by_author[of two_authors "\<lparr>dd_messageId = 1, dd_username = (js_str ''lev'')\<rparr>"
          "[]" lev_msg "[cin_msg]"]
  by (simp add: two_authors_def init_def lev_msg_def cin_msg_def new_message_def number_eval lev_hi_def)

text \<open>
  Claim C10. Deleting a message never touches the read receipts: the whole receipt map is the
  same after the handler, so after a successful delete the entry of the deleted id is still
  there with its readers, and so is every other entry.
\<close>

theorem delete_keeps_receipts:
  "readReceipts (fst (delete_message s d)) = readReceipts s \<and>
   (map_of (readReceipts s) (dd_messageId d) = Some readBy \<and> readBy \<noteq> [] \<and>
    snd (delete_message s d) = [(Io_emit, Message_deleted (dd_messageId d))] \<longrightarrow>
      map_of (readReceipts (fst (delete_message s d))) (dd_messageId d) = Some readBy)"
  by (simp add: readReceipts_delete_message)

theorem delete_keeps_receipts_witness:
  "map_of (readReceipts two_authors) 1 = Some [(js_str ''cin'')] \<and> [(js_str ''cin'')] \<noteq> [] \<and>
   snd (delete_message two_authors \<lparr>dd_messageId = 1, dd_username = (js_str ''lev'')\<rparr>)
     = [(Io_emit, Message_deleted 1)] \<and>
   messages (fst (delete_message two_authors \<lparr>dd_messageId = 1, dd_username = (js_str ''lev'')\<rparr>))
     = [cin_msg] \<and>
   map_of (readReceipts (fst (delete_message two_authors \<lparr>dd_messageId = 1, dd_username = (js_str ''lev'')\<rparr>))) 1
     = Some [(js_str ''cin'')]"
  using delete_keeps_receipts[of two_authors "\<lparr>dd_messageId = 1, dd_username = (js_str ''lev'')\<rparr>" "[(js_str ''cin'')]"]
  by (simp add: two_authors_def init_def lev_msg_def cin_msg_def new_message_def number_eval lev_hi_def
        delete_message_def splice1_def)

subsection \<open>The typing sweep\<close>

lemma sweep_entries_filter:
  "sweep_entries now tu =
     (filter (\<lambda>(uname, typed_at). \<not> now - typed_at > 3000) tu,
      map (\<lambda>(uname, typed_at). (Io_emit, User_stopped_typing uname))
        (filter (\<lambda>(uname, typed_at). now - typed_at > 3000) tu))"
  by (induction tu) (auto split: prod.splits)

lemma map_of_filter_kept:
  "map_of tu u = Some t \<Longrightarrow> P (u, t) \<Longrightarrow> map_of (filter P tu) u = Some t"
  by (induction tu) (auto split: if_splits)

lemma map_of_filter_dropped:
  "distinct (map fst tu) \<Longrightarrow> map_of tu u = Some t \<Longrightarrow> \<not> P (u, t) \<Longrightarrow>
   map_of (filter P tu) u = None"
proof -
  assume d: "distinct (map fst tu)" and m: "map_of tu u = Some t" and np: "\<not> P (u, t)"
  have "\<And>t'. (u, t') \<in> set tu \<Longrightarrow> t' = t"
    using d m by (metis map_of_is_SomeI option.inject)
  with np have "u \<notin> fst ` set (filter P tu)" by auto
  then show ?thesis by (simp add: map_of_eq_None_iff)
qed

lemma distinct_typingUsers_step:
  "distinct (map fst (typingUsers s)) \<Longrightarrow> distinct (map fst (typingUsers (fst (step s a))))"
  by (cases a)
    (auto simp: join_def send_message_def edit_message_def delete_message_def typing_def
       stop_typing_def mark_as_read_def disconnect_def typing_sweep_def Let_def
       sweep_entries_filter distinct_update distinct_delete distinct_map_filter
       split: option.splits)

lemma distinct_typingUsers_run:
  "distinct (map fst (typingUsers s)) \<Longrightarrow> distinct (map fst (typingUsers (run s as)))"
  by (induction as arbitrary: s) (simp_all add: distinct_typingUsers_step)

lemma distinct_typingUsers_reachable: "distinct (map fst (typingUsers (run init as)))"
  by (rule distinct_typingUsers_run) (simp add: init_def)

lemma typing_sets_entry: "map_of (typingUsers (fst (typing s T sid u))) u = Some T"
  by (simp add: typing_def update_conv')

text \<open>
  Claim C4 as stated fails at the boundary: the handler tests \<^verbatim>\<open>now - timestamp > 3000\<close>,
  so an entry set at time 0 survives the sweep at time 3000, which emits nothing.
\<close>

theorem typing_sweep_boundary:
  "map_of (typingUsers lev_typing) (js_str ''lev'') = Some 0 \<and>
   map_of (typingUsers (fst (typing_sweep lev_typing 3000))) (js_str ''lev'') = Some 0 \<and>
   snd (typing_sweep lev_typing 3000) = []"
  by (simp add: lev_typing_def typing_def init_def typing_sweep_def)

text \<open>
  Claim C4, amended. In a state whose typing map holds the entry of a user with time \<open>T\<close>
  (the keys of a \<^verbatim>\<open>Map\<close> are distinct, see \<open>distinct_typingUsers_reachable\<close>), a sweep at a
  time later than \<open>T + 3000\<close> removes the entry and emits the stopped-typing event of that
  user; a sweep at any time up to and including \<open>T + 3000\<close> keeps the entry and emits no
  such event.
\<close>

theorem typing_sweep_expiry:
  assumes "distinct (map fst (typingUsers s))" and "map_of (typingUsers s) u = Some T"
  shows "(now > T + 3000 \<longrightarrow>
            map_of (typingUsers (fst (typing_sweep s now))) u = None \<and>
            (Io_emit, User_stopped_typing u) \<in> set (snd (typing_sweep s now))) \<and>
         (now \<le> T + 3000 \<longrightarrow>
            map_of (typingUsers (fst (typing_sweep s now))) u = Some T \<and>
            (Io_emit, User_stopped_typing u) \<notin> set (snd (typing_sweep s now)))"
proof (intro conjI impI)
  assume late: "now > T + 3000"
  then have "\<not> (\<lambda>(uname, typed_at). \<not> now - typed_at > 3000) (u, T)" by simp
  from map_of_filter_dropped[where P = "\<lambda>(uname, typed_at). \<not> now - typed_at > 3000",
         OF assms this]
  show "map_of (typingUsers (fst (typing_sweep s now))) u = None"
    by (simp add: typing_sweep_def sweep_entries_filter)
  from assms(2) have "(u, T) \<in> set (typingUsers s)" by (rule map_of_SomeD)
  with late show "(Io_emit, User_stopped_typing u) \<in> set (snd (typing_sweep s now))"
    by (force simp: typing_sweep_def sweep_entries_filter)
next
  assume early: "now \<le> T + 3000"
  then have "(\<lambda>(uname, typed_at). \<not> now - typed_at > 3000) (u, T)" by simp
  from map_of_filter_kept[where P = "\<lambda>(uname, typed_at). \<not> now - typed_at > 3000",
         OF assms(2) this]
  show "map_of (typingUsers (fst (typing_sweep s now))) u = Some T"
    by (simp add: typing_sweep_def sweep_entries_filter)
  have "\<And>t'. (u, t') \<in> set (typingUsers s) \<Longrightarrow> t' = T"
    using assms by (metis map_of_is_SomeI option.inject)
  with early show "(Io_emit, User_stopped_typing u) \<notin> set (snd (typing_sweep s now))"
    by (auto simp: typing_sweep_def sweep_entries_filter)
qed

theorem typing_sweep_expiry_witness:
  "distinct (map fst (typingUsers lev_typing)) \<and>
   map_of (typingUsers lev_typing) (js_str ''lev'') = Some 0 \<and>
   map_of (typingUsers (fst (typing_sweep lev_typing 3001))) (js_str ''lev'') = None \<and>
   (Io_emit, User_stopped_typing (js_str ''lev'')) \<in> set (snd (typing_sweep lev_typing 3001)) \<and>
   map_of (typingUsers (fst (typing_sweep lev_typing 2999))) (js_str ''lev'') = Some 0 \<and>
   (Io_emit, User_stopped_typing (js_str ''lev'')) \<notin> set (snd (typing_sweep lev_typing 2999))"
  using typing_sweep_expiry[of lev_typing "(js_str ''lev'')" 0 3001]
        typing_sweep_expiry[of lev_typing "(js_str ''lev'')" 0 2999]
  by (simp add: lev_typing_def typing_def init_def)

subsection \<open>Read receipts\<close>

lemma Set_add_idem: "Set_add x (Set_add x xs) = Set_add x xs"
  by (simp add: Set_add_def)

lemma set_Set_add: "set (Set_add x xs) = insert x (set xs)"
  by (auto simp: Set_add_def)

text \<open>The two steps of the handler amount to one update of the entry.\<close>

lemma readReceipts_mark_as_read:
  "readReceipts (fst (mark_as_read s messageId uname)) =
     AList.update messageId
       (Set_add uname (case map_of (readReceipts s) messageId of None \<Rightarrow> [] | Some users \<Rightarrow> users))
       (readReceipts s)"
  by (cases "map_of (readReceipts s) messageId") (simp_all add: mark_as_read_def update_conv')

lemma map_of_mark_as_read:
  "map_of (readReceipts (fst (mark_as_read s messageId uname))) =
     (map_of (readReceipts s))(messageId \<mapsto>
        Set_add uname (case map_of (readReceipts s) messageId of None \<Rightarrow> [] | Some users \<Rightarrow> users))"
  by (simp add: readReceipts_mark_as_read update_conv')

text \<open>
  Claim C7 as stated fails: the handler never looks at the message store, so on the empty
  store a receipt for id 1 is recorded all the same.
\<close>

theorem mark_as_read_absent_message:
  "messages init = [] \<and>
   readReceipts (fst (mark_as_read init 1 (js_str ''lev''))) = [(1, [(js_str ''lev'')])] \<and>
   readReceipts (fst (mark_as_read init 1 (js_str ''lev''))) \<noteq> readReceipts init"
  by (simp add: mark_as_read_def init_def Set_add_def)

text \<open>
  Claim C7, amended. Whatever the message store holds, \<^verbatim>\<open>mark_as_read\<close> adds the user to the
  readers recorded for the id (creating the entry when there is none) and leaves the entries
  of all other ids alone; the receipts that result do not depend on the store, the store is
  not changed, and one read event is emitted. The receipt map is left as it was exactly when
  the user was already recorded for that id.
\<close>

theorem mark_as_read_ignores_store:
  "map_of (readReceipts (fst (mark_as_read s messageId uname))) =
     (map_of (readReceipts s))(messageId \<mapsto>
        Set_add uname (case map_of (readReceipts s) messageId of None \<Rightarrow> [] | Some users \<Rightarrow> users)) \<and>
   readReceipts (fst (mark_as_read (s\<lparr>messages := ms\<rparr>) messageId uname)) =
     readReceipts (fst (mark_as_read s messageId uname)) \<and>
   messages (fst (mark_as_read s messageId uname)) = messages s \<and>
   snd (mark_as_read s messageId uname) = [(Io_emit, Message_read messageId uname)] \<and>
   (readReceipts (fst (mark_as_read s messageId uname)) = readReceipts s \<longleftrightarrow>
      (\<exists>users. map_of (readReceipts s) messageId = Some users \<and> uname \<in> set users))"
proof (intro conjI)
  show "(readReceipts (fst (mark_as_read s messageId uname)) = readReceipts s) =
          (\<exists>users. map_of (readReceipts s) messageId = Some users \<and> uname \<in> set users)"
  proof
    assume same: "readReceipts (fst (mark_as_read s messageId uname)) = readReceipts s"
    have "map_of (readReceipts (fst (mark_as_read s messageId uname))) messageId =
            Some (Set_add uname (case map_of (readReceipts s) messageId of
                                   None \<Rightarrow> [] | Some users \<Rightarrow> users))"
      by (simp add: map_of_mark_as_read)
    with same obtain users where u: "map_of (readReceipts s) messageId = Some users"
      and "users = Set_add uname users"
      by (cases "map_of (readReceipts s) messageId") auto
    then have "uname \<in> set users" by (metis set_Set_add insertI1)
    with u show "\<exists>users. map_of (readReceipts s) messageId = Some users \<and> uname \<in> set users"
      by blast
  next
    assume "\<exists>users. map_of (readReceipts s) messageId = Some users \<and> uname \<in> set users"
    then obtain users where "map_of (readReceipts s) messageId = Some users" "uname \<in> set users"
      by blast
    then show "readReceipts (fst (mark_as_read s messageId uname)) = readReceipts s"
      by (simp add: readReceipts_mark_as_read Set_add_def update_triv)
  qed
qed (simp_all add: map_of_mark_as_read, simp_all add: mark_as_read_def Let_def)

theorem mark_as_read_ignores_store_witness:
  "7 \<notin> set (map msg_id (messages two_authors)) \<and>
   readReceipts (fst (mark_as_read two_authors 7 (js_str ''lev''))) = [(1, [(js_str ''cin'')]), (7, [(js_str ''lev'')])] \<and>
   map_of (readReceipts (fst (mark_as_read two_authors 7 (js_str ''lev'')))) 1 = Some [(js_str ''cin'')] \<and>
   messages (fst (mark_as_read two_authors 7 (js_str ''lev''))) = messages two_authors \<and>
   snd (mark_as_read two_authors 7 (js_str ''lev'')) = [(Io_emit, Message_read 7 (js_str ''lev''))]"
  using mark_as_read_ignores_store[of two_authors 7 "(js_str ''lev'')" "[]"]
  by (simp add: two_authors_def init_def lev_msg_def cin_msg_def new_message_def number_eval lev_hi_def
        mark_as_read_def Set_add_def)

text \<open>
  Claim C8. Marking the same message as read by the same user a second time leaves the whole
  state, and so the readers of every id, as the first call left it.
\<close>

theorem mark_as_read_idempotent:
  "fst (mark_as_read (fst (mark_as_read s messageId uname)) messageId uname) =
     fst (mark_as_read s messageId uname)"
proof -
  let ?s1 = "fst (mark_as_read s messageId uname)"
  have rest: "fst (mark_as_read t messageId uname) =
                t\<lparr>readReceipts := readReceipts (fst (mark_as_read t messageId uname))\<rparr>" for t
    by (simp add: mark_as_read_def Let_def)
  have "readReceipts (fst (mark_as_read ?s1 messageId uname)) = readReceipts ?s1"
    by (simp add: readReceipts_mark_as_read update_conv' Set_add_idem)
  with rest[of ?s1] show ?thesis by simp
qed

subsection \<open>Message ids\<close>

lemma map_msg_id_slice_last: "map msg_id (slice_last n ms) = slice_last n (map msg_id ms)"
  by (simp add: slice_last_def drop_map)

lemma distinct_slice_last: "distinct xs \<Longrightarrow> distinct (slice_last n xs)"
  by (simp add: slice_last_def)

lemma splice1_Cons:
  "splice1 i (x # xs) = (case i of 0 \<Rightarrow> xs | Suc j \<Rightarrow> x # splice1 j xs)"
  by (simp add: splice1_def split: nat.splits)

lemma set_splice1: "set (splice1 i xs) \<subseteq> set xs"
  unfolding splice1_def using set_take_subset[of i xs] set_drop_subset[of "Suc i" xs] by auto

lemma distinct_splice1: "distinct (map f xs) \<Longrightarrow> distinct (map f (splice1 i xs))"
proof (induction xs arbitrary: i)
  case Nil
  then show ?case by (simp add: splice1_def)
next
  case (Cons x xs)
  show ?case
  proof (cases i)
    case 0
    with Cons.prems show ?thesis by (simp add: splice1_Cons)
  next
    case (Suc j)
    from Cons.prems have "f x \<notin> f ` set (splice1 j xs)"
      using set_splice1[of j xs] by auto
    with Cons Suc show ?thesis by (simp add: splice1_Cons)
  qed
qed

lemma ids_edit_message: "map msg_id (messages (fst (edit_message s stamp d))) = map msg_id (messages s)"
proof (cases "findIndex (\<lambda>msg. msg_id msg = ed_messageId d) (messages s)")
  case None
  then show ?thesis by (simp add: edit_message_def)
next
  case (Some i)
  from findIndex_Some[OF Some] have "i < length (messages s)" by simp
  with Some show ?thesis by (simp add: edit_message_def map_update list_update_same_conv)
qed

lemma distinct_ids_step:
  assumes "distinct (map msg_id (messages s))" and "fresh_id s a"
  shows "distinct (map msg_id (messages (fst (step s a))))"
proof (cases a)
  case (Send_message now rnd stamp d)
  with assms have "distinct (map msg_id (messages s @ [new_message now rnd stamp d]))"
    by (simp add: fresh_id_def)
  then show ?thesis
    unfolding Send_message step.simps messages_send_message map_msg_id_slice_last
    by (rule distinct_slice_last)
next
  case (Edit_message stamp d)
  with assms(1) show ?thesis by (simp add: ids_edit_message)
next
  case (Delete_message d)
  with assms(1) show ?thesis
    by (auto simp: delete_message_def distinct_splice1 split: option.splits)
qed (use assms(1) in \<open>simp_all add: join_def typing_def stop_typing_def
       mark_as_read_def disconnect_def typing_sweep_def Let_def split: option.splits prod.splits\<close>)

text \<open>
  Claim C9 as stated fails: nothing in the handler compares the new id with the stored ones.
  Two appends that read the same clock value and the same random value store two messages
  with one id; and at a clock value of the present day, where the double-precision numbers
  are \<open>2^(-12)\<close> apart, so do two appends that read different random values.
\<close>

theorem duplicate_ids:
  "\<not> distinct (map msg_id (messages (run init
        [Send_message 5 (1/2) (js_str ''t0'') lev_hi,
         Send_message 5 (1/2) (js_str ''t0'') cin_yo]))) \<and>
   \<not> distinct (map msg_id (messages (run init
        [Send_message 1762153200000 (1/16384) (js_str ''t0'') lev_hi,
         Send_message 1762153200000 (1/32768) (js_str ''t0'') cin_yo])))"
  by (simp add: init_def send_message_def new_message_def number_eval)

text \<open>
  Claim C9, amended. The ids of the store stay pairwise distinct along every run of the
  server in which each append computes an id, the rounded sum of its clock value and its
  random value, that no stored message carries; edits, deletes and all other actions keep
  the ids distinct without any condition.
\<close>

theorem ids_distinct_when_fresh:
  "distinct (map msg_id (messages s)) \<Longrightarrow> fresh_run s as \<Longrightarrow>
   distinct (map msg_id (messages (run s as)))"
proof (induction as arbitrary: s)
  case Nil
  then show ?case by simp
next
  case (Cons a as)
  from Cons.prems have "distinct (map msg_id (messages (fst (step s a))))"
    by (simp add: distinct_ids_step)
  with Cons.prems show ?case by (simp add: Cons.IH)
qed

theorem ids_distinct_when_fresh_witness:
  "distinct (map msg_id (messages init)) \<and>
   fresh_run init [Send_message 5 (1/2) (js_str ''t0'') lev_hi, Send_message 5 (3/4) (js_str ''t0'') cin_yo,
                   Delete_message \<lparr>dd_messageId = 11/2, dd_username = (js_str ''lev'')\<rparr>,
                   Send_message 5 (1/2) (js_str ''t0'') lev_hi] \<and>
   distinct (map msg_id (messages (run init
              [Send_message 5 (1/2) (js_str ''t0'') lev_hi, Send_message 5 (3/4) (js_str ''t0'') cin_yo,
               Delete_message \<lparr>dd_messageId = 11/2, dd_username = (js_str ''lev'')\<rparr>,
               Send_message 5 (1/2) (js_str ''t0'') lev_hi]))) \<and>
   map msg_id (messages (run init
              [Send_message 5 (1/2) (js_str ''t0'') lev_hi, Send_message 5 (3/4) (js_str ''t0'') cin_yo,
               Delete_message \<lparr>dd_messageId = 11/2, dd_username = (js_str ''lev'')\<rparr>,
               Send_message 5 (1/2) (js_str ''t0'') lev_hi])) = [23/4, 11/2]"
  using ids_distinct_when_fresh[of init
          "[Send_message 5 (1/2) (js_str ''t0'') lev_hi, Send_message 5 (3/4) (js_str ''t0'') cin_yo,
            Delete_message \<lparr>dd_messageId = 11/2, dd_username = (js_str ''lev'')\<rparr>,
            Send_message 5 (1/2) (js_str ''t0'') lev_hi]"]
  by (simp add: init_def send_message_def new_message_def number_eval fresh_id_def
        delete_message_def splice1_def lev_hi_def cin_yo_def)

subsection \<open>Search\<close>













subsection \<open>Joining\<close>

text \<open>
  Claim C6 as stated fails: the presence update is sent with \<^verbatim>\<open>io.emit\<close>, so the joiner
  receives it too.
\<close>

theorem join_presence_to_joiner:
  "User_status_update (js_str ''lev'') Online \<in> set (delivered (js_str ''s1'') (snd (join init (js_str ''s1'') (js_str ''lev''))))"
  by (simp add: join_def delivered_def Let_def)

text \<open>
  Claim C6, amended. On a join the joining connection receives the presence update, the
  snapshot of the store and the roster of online users, in this order; every other
  connection receives the presence update and the join notice, and neither the snapshot nor
  the roster. So the snapshot and the roster go to the joiner alone, the join notice to
  everybody but the joiner, and the presence update to everybody, the joiner included.
\<close>

theorem join_deliveries:
  "delivered c (snd (join s sid uname)) =
     (if c = sid
      then [User_status_update uname Online, Chat_history (messages s),
            Online_users (filter (\<lambda>(_, st). st = Online)
                            (AList.update uname Online (userStatus s)))]
      else [User_status_update uname Online, User_joined uname])"
  by (simp add: join_def delivered_def Let_def)

theorem join_deliveries_witness:
  "delivered (js_str ''s3'') (snd (join lev_cin_online (js_str ''s3'') (js_str ''lev''))) =
     [User_status_update (js_str ''lev'') Online, Chat_history [lev_msg, cin_msg],
      Online_users [((js_str ''lev''), Online), ((js_str ''cin''), Online)]] \<and>
   delivered (js_str ''s2'') (snd (join lev_cin_online (js_str ''s3'') (js_str ''lev''))) =
     [User_status_update (js_str ''lev'') Online, User_joined (js_str ''lev'')]"
  using join_deliveries[of "(js_str ''s3'')" lev_cin_online "(js_str ''s3'')" "(js_str ''lev'')"]
        join_deliveries[of "(js_str ''s2'')" lev_cin_online "(js_str ''s3'')" "(js_str ''lev'')"]
  by (simp add: lev_cin_online_def join_def two_authors_def init_def Let_def)

end
